theory Spec2Isabelle
  imports Complex_Main "HOL-Library.Sublist"
begin

section \<open>Motors.cpp: the motor supervisor of a differential-drive robot\<close>

text \<open>
  The development embeds \<^verbatim>\<open>src/Motors/src/Motors.cpp\<close>: the message callback, one
  iteration of the watchdog loop of \<^verbatim>\<open>main\<close>, one iteration of \<^verbatim>\<open>receiverControl\<close>,
  and \<^verbatim>\<open>setVelocity\<close>, \<^verbatim>\<open>initMotors\<close> and \<^verbatim>\<open>killMotors\<close>.

  Conventions of the embedding:
  \<^item> a C++ \<^verbatim>\<open>double\<close> is read as a real number (no rounding, no NaN, no infinity), and
    \<^verbatim>\<open>M_PI\<close> as \<open>pi\<close>;
  \<^item> the four globals are the fields of the record \<open>world\<close>; the record carries one more
    field, \<open>trace\<close>, the sequence of everything the process has sent to a motor
    controller (with the reply it got) and everything it has logged;
  \<^item> the motor controllers are outside the program: their replies come from a parameter
    \<open>hw\<close>, which may answer anything, depending on all that happened before.
\<close>

subsection \<open>Constants of Motors.h\<close>

text \<open>
  \<^verbatim>\<open>Motors.h\<close> is not among the sources. Each macro of it that the code uses is a field
  of the record \<open>config\<close>, so every theorem holds for whatever value the header gives it.
  The array \<^verbatim>\<open>m\<close> of \<^verbatim>\<open>main\<close> has two elements, so the program itself is defined only
  when \<open>NUMBER_OF_MOTORS\<close> is at most 2 and both channel numbers are below 2; here a
  channel is any natural number, and no theorem needs the bound.
\<close>

record config =
  NUMBER_OF_MOTORS :: nat
  LEFT_MOTOR_CHANNEL :: nat
  RIGHT_MOTOR_CHANNEL :: nat
  TOPSPEED :: real
  ENCODER_RESOLUTION :: real
  GEARRATIO :: real
  WHEEL_RADIUS :: real
  ROBOT_RADIUS :: real
  LEFT_MOTOR_WARP :: real
  RIGHT_MOTOR_WARP :: real

subsection \<open>Motor controllers and the log\<close>

text \<open>
  Modelled from the spec: the class \<^verbatim>\<open>motorController\<close> of
  \<^verbatim>\<open>drivers/motorController.h\<close> is missing from the sources. Following the Motor Channel
  contract of the specification, it offers \<^verbatim>\<open>stopMotor()\<close>, \<^verbatim>\<open>setMode(code)\<close>,
  \<^verbatim>\<open>setEncoder(value)\<close>, \<^verbatim>\<open>toggleMotor(on)\<close> and \<^verbatim>\<open>setVelocity(value)\<close>, each
  returning a \<^verbatim>\<open>bool\<close>.
\<close>

datatype command =
    StopMotor
  | SetMode int
  | SetEncoder int
  | ToggleMotor bool
  | SetVelocity real

datatype severity = INFO | WARN | ERROR

datatype message =
    Watchdog_timed_out
  | Linear_angular real real
  | GO_SLOWER
  | Left_right_velocity real real
  | Motors_failed_to_setVelocity
  | FAIL_MOTOR nat
  | Motors_failed_to_initialize

datatype event =
    Drv nat command bool
  | Log severity message

record world =
  g_watchdog_tripped :: bool
  g_motors_enabled :: bool
  g_linear_velocity :: real
  g_angular_velocity :: real
  trace :: "event list"

type_synonym driver = "event list \<Rightarrow> nat \<Rightarrow> command \<Rightarrow> bool"

text \<open>\<^verbatim>\<open>m[i].c(...)\<close>: the controller answers, and the call and its answer are recorded.\<close>

definition invoke :: "driver \<Rightarrow> nat \<Rightarrow> command \<Rightarrow> world \<Rightarrow> bool \<times> world" where
  "invoke hw i c s =
     (let r = hw (trace s) i c in (r, s\<lparr>trace := trace s @ [Drv i c r]\<rparr>))"

text \<open>\<^verbatim>\<open>ROS_INFO\<close>, \<^verbatim>\<open>ROS_WARN\<close>, \<^verbatim>\<open>ROS_ERROR\<close>.\<close>

definition ros_log :: "severity \<Rightarrow> message \<Rightarrow> world \<Rightarrow> world" where
  "ros_log lvl msg s = s\<lparr>trace := trace s @ [Log lvl msg]\<rparr>"

text \<open>\<^verbatim>\<open>if( m[i].c(...)!=1 ) success = false;\<close>\<close>

definition attempt :: "driver \<Rightarrow> nat \<Rightarrow> command \<Rightarrow> bool \<times> world \<Rightarrow> bool \<times> world" where
  "attempt hw i c acc =
     (let (r, s') = invoke hw i c (snd acc)
      in (if r \<noteq> True then False else fst acc, s'))"

subsection \<open>initMotors and killMotors\<close>

definition initMotors_body :: "driver \<Rightarrow> nat \<Rightarrow> bool \<times> world \<Rightarrow> bool \<times> world" where
  "initMotors_body hw i acc =
     (let a1 = attempt hw i StopMotor acc;
          a2 = attempt hw i (SetMode 5) a1;
          a3 = attempt hw i (SetEncoder 0) a2;
          a4 = attempt hw i (ToggleMotor True) a3
      in if fst a4 = False then (fst a4, ros_log INFO (FAIL_MOTOR i) (snd a4)) else a4)"

definition initMotors :: "config \<Rightarrow> driver \<Rightarrow> world \<Rightarrow> bool \<times> world" where
  "initMotors cfg hw s =
     (let (success, s') = fold (initMotors_body hw) [0..<NUMBER_OF_MOTORS cfg] (True, s)
      in if success = False
         then (success, ros_log ERROR Motors_failed_to_initialize s')
         else (success, s'))"

definition killMotors_body :: "driver \<Rightarrow> nat \<Rightarrow> bool \<times> world \<Rightarrow> bool \<times> world" where
  "killMotors_body hw i acc =
     (let a1 = attempt hw i StopMotor acc;
          a2 = attempt hw i (ToggleMotor False) a1
      in a2)"

definition killMotors :: "config \<Rightarrow> driver \<Rightarrow> world \<Rightarrow> bool \<times> world" where
  "killMotors cfg hw s = fold (killMotors_body hw) [0..<NUMBER_OF_MOTORS cfg] (True, s)"

subsection \<open>setVelocity\<close>

text \<open>
  The parameters \<^verbatim>\<open>linear\<close> and \<^verbatim>\<open>angular\<close> are \<open>lin\<close> and \<open>ang\<close> here, and \<open>lin'\<close> and
  \<open>ang'\<close> after the speed check, which overwrites them.

  Line 171 calls \<^verbatim>\<open>abs\<close> unqualified on the \<^verbatim>\<open>double\<close> \<^verbatim>\<open>linear\<close>. The file declares
  no \<^verbatim>\<open>abs\<close> for a \<^verbatim>\<open>double\<close> (it includes no \<^verbatim>\<open>cmath\<close>, and has no \<^verbatim>\<open>std::\<close> and no
  using-directive), so the call is to \<^verbatim>\<open>int abs(int)\<close> of the C library: \<^verbatim>\<open>linear\<close> is
  converted to \<^verbatim>\<open>int\<close> first, which drops its fractional part, and the \<^verbatim>\<open>int\<close> that
  comes back is compared with \<^verbatim>\<open>TOPSPEED\<close>. C++ leaves the conversion undefined when
  the integer part does not fit an \<^verbatim>\<open>int\<close>; \<open>double_to_int\<close> truncates every real, so
  the model speaks for the program where \<open>\<bar>linear\<bar> < 2 ^ 31\<close>.
\<close>

definition double_to_int :: "real \<Rightarrow> int" where
  "double_to_int x = (if 0 \<le> x then \<lfloor>x\<rfloor> else \<lceil>x\<rceil>)"

definition abs_int :: "int \<Rightarrow> int" where
  "abs_int n = (if n < 0 then - n else n)"

definition MPS2TPS :: "config \<Rightarrow> real" where
  "MPS2TPS cfg = ENCODER_RESOLUTION cfg * GEARRATIO cfg / (2 * WHEEL_RADIUS cfg * pi)"

definition TURNOFFSET :: "config \<Rightarrow> real" where
  "TURNOFFSET cfg = MPS2TPS cfg * ROBOT_RADIUS cfg"

definition setVelocity :: "config \<Rightarrow> driver \<Rightarrow> real \<Rightarrow> real \<Rightarrow> world \<Rightarrow> bool \<times> world" where
  "setVelocity cfg hw lin ang s =
     (let s1 = ros_log INFO (Linear_angular lin ang) s;
          success = True;
          (lin', ang', s2) =
             (if real_of_int (abs_int (double_to_int lin)) > TOPSPEED cfg
              then (0, 0, ros_log ERROR GO_SLOWER s1)
              else (lin, ang, s1));
          left_velocity =
             ((lin' * MPS2TPS cfg) - (TURNOFFSET cfg * ang')) * LEFT_MOTOR_WARP cfg;
          right_velocity =
             ((lin' * MPS2TPS cfg) + (TURNOFFSET cfg * ang')) * RIGHT_MOTOR_WARP cfg;
          s3 = ros_log INFO (Left_right_velocity left_velocity right_velocity) s2;
          (r1, s4) = invoke hw (LEFT_MOTOR_CHANNEL cfg) (SetVelocity left_velocity) s3;
          success1 = (success \<and> r1);
          (r2, s5) = invoke hw (RIGHT_MOTOR_CHANNEL cfg) (SetVelocity right_velocity) s4;
          success2 = (success1 \<and> r2)
      in if success2 = False
         then (success2, ros_log ERROR Motors_failed_to_setVelocity s5)
         else (success2, s5))"

subsection \<open>The message callback and the watchdog loop of main\<close>

definition motionCallback :: "real \<times> real \<Rightarrow> world \<Rightarrow> world" where
  "motionCallback msg s =
     s\<lparr>g_watchdog_tripped := True,
       g_linear_velocity := fst msg,
       g_angular_velocity := snd msg\<rparr>"

text \<open>
  \<^verbatim>\<open>ros::getGlobalCallbackQueue()->callAvailable(ros::WallDuration(WATCHDOG_TIMEOUT))\<close>
  runs the callback of every message that is available, waiting up to the timeout for
  one. Its argument here is the list of the messages it delivers, in order; the empty
  list is the call that ran into the timeout.
\<close>

definition callAvailable :: "(real \<times> real) list \<Rightarrow> world \<Rightarrow> world" where
  "callAvailable msgs s = fold motionCallback msgs s"

text \<open>The body of \<^verbatim>\<open>while (ros::ok())\<close> in \<^verbatim>\<open>main\<close>.\<close>

definition main_loop_body :: "config \<Rightarrow> driver \<Rightarrow> (real \<times> real) list \<Rightarrow> world \<Rightarrow> world" where
  "main_loop_body cfg hw msgs s =
     (let s1 = s\<lparr>g_watchdog_tripped := False\<rparr>;
          s2 = callAvailable msgs s1
      in if g_watchdog_tripped s2 = False
         then
           (let s3 = ros_log WARN Watchdog_timed_out s2;
                (_, s4) = killMotors cfg hw s3
            in s4\<lparr>g_motors_enabled := False\<rparr>)
         else
           (let s3 =
                  (if g_motors_enabled s2 = False
                   then (let (r, s') = initMotors cfg hw s2 in s'\<lparr>g_motors_enabled := r\<rparr>)
                   else s2);
                (_, s4) = setVelocity cfg hw (g_linear_velocity s3) (g_angular_velocity s3) s3
            in s4))"

text \<open>
  \<^verbatim>\<open>main\<close> up to the loop: the globals are initialised, the motors are initialised, and a
  failure there ends the process with \<^verbatim>\<open>-1\<close>.
\<close>

definition global_variable_initialization :: world where
  "global_variable_initialization =
     \<lparr>g_watchdog_tripped = False, g_motors_enabled = False,
      g_linear_velocity = 0.0, g_angular_velocity = 0.0, trace = []\<rparr>"

definition main_startup :: "config \<Rightarrow> driver \<Rightarrow> int + world" where
  "main_startup cfg hw =
     (let s0 = global_variable_initialization;
          (r, s1) = initMotors cfg hw s0;
          s2 = s1\<lparr>g_motors_enabled := r\<rparr>
      in if g_motors_enabled s2 = False then Inl (- 1) else Inr s2)"

subsection \<open>receiverControl\<close>

text \<open>
  \<^verbatim>\<open>strstr(haystack, needle)\<close>: the offset of the first occurrence of \<open>needle\<close> in
  \<open>haystack\<close>, or \<open>None\<close> for \<^verbatim>\<open>NULL\<close>. Both are C strings: the characters before the
  terminating NUL.
\<close>

fun strstr :: "string \<Rightarrow> string \<Rightarrow> nat option" where
  "strstr [] needle = (if needle = [] then Some 0 else None)"
| "strstr (c # cs) needle =
     (if prefix needle (c # cs) then Some 0 else map_option Suc (strstr cs needle))"

text \<open>
  The body of \<^verbatim>\<open>while(ros::ok())\<close> in \<^verbatim>\<open>receiverControl\<close>; \<open>buf\<close> is the C string that
  \<^verbatim>\<open>readSerial\<close> left in the buffer.
\<close>

definition receiverControl_body :: "string \<Rightarrow> world \<Rightarrow> world" where
  "receiverControl_body buf s =
     (let s1 = (if strstr buf ''a?'' \<noteq> None then s\<lparr>g_motors_enabled := False\<rparr> else s);
          s2 = (if strstr buf '':?'' \<noteq> None then s1\<lparr>g_motors_enabled := False\<rparr> else s1)
      in s2)"

section \<open>Reading the trace\<close>

text \<open>
  What a run did is read off its trace: the calls it made on the motor controllers, the
  replies they gave, and the lines it logged, each in order.
\<close>

fun calls :: "event list \<Rightarrow> (nat \<times> command) list" where
  "calls [] = []"
| "calls (Drv i c r # es) = (i, c) # calls es"
| "calls (Log lvl msg # es) = calls es"

fun replies :: "event list \<Rightarrow> bool list" where
  "replies [] = []"
| "replies (Drv i c r # es) = r # replies es"
| "replies (Log lvl msg # es) = replies es"

fun logs :: "event list \<Rightarrow> (severity \<times> message) list" where
  "logs [] = []"
| "logs (Drv i c r # es) = logs es"
| "logs (Log lvl msg # es) = (lvl, msg) # logs es"

text \<open>The events that were added to the trace between the worlds \<open>s\<close> and \<open>s'\<close>.\<close>

definition emitted :: "world \<Rightarrow> world \<Rightarrow> event list" where
  "emitted s s' = drop (length (trace s)) (trace s')"

fun is_SetVelocity :: "command \<Rightarrow> bool" where
  "is_SetVelocity (SetVelocity v) = True"
| "is_SetVelocity c = False"

text \<open>The calls of one pass of the loop of \<^verbatim>\<open>killMotors\<close> and of \<^verbatim>\<open>initMotors\<close>.\<close>

definition kill_sequence :: "nat \<Rightarrow> (nat \<times> command) list" where
  "kill_sequence i = [(i, StopMotor), (i, ToggleMotor False)]"

definition init_sequence :: "nat \<Rightarrow> (nat \<times> command) list" where
  "init_sequence i = [(i, StopMotor), (i, SetMode 5), (i, SetEncoder 0), (i, ToggleMotor True)]"

text \<open>
  Every reply recorded in the events \<open>es\<close>, which follow the events \<open>pre\<close>, is the reply
  the controllers \<open>hw\<close> gave at that point.
\<close>

fun answered_by :: "driver \<Rightarrow> event list \<Rightarrow> event list \<Rightarrow> bool" where
  "answered_by hw pre [] = True"
| "answered_by hw pre (Drv i c r # es) =
     (r = hw pre i c \<and> answered_by hw (pre @ [Drv i c r]) es)"
| "answered_by hw pre (Log lvl msg # es) = answered_by hw (pre @ [Log lvl msg]) es"

text \<open>
  Lines 171 to 186 of \<^verbatim>\<open>setVelocity\<close> as functions: the test of line 171, the pair
  \<^verbatim>\<open>(linear, angular)\<close> after the speed check, and the two wheel velocities computed from
  such a pair.
\<close>

definition overspeed :: "config \<Rightarrow> real \<Rightarrow> bool" where
  "overspeed cfg lin = (real_of_int (abs_int (double_to_int lin)) > TOPSPEED cfg)"

definition effective :: "config \<Rightarrow> real \<times> real \<Rightarrow> real \<times> real" where
  "effective cfg v = (if overspeed cfg (fst v) then (0, 0) else v)"

definition left_of :: "config \<Rightarrow> real \<times> real \<Rightarrow> real" where
  "left_of cfg v = ((fst v * MPS2TPS cfg) - (TURNOFFSET cfg * snd v)) * LEFT_MOTOR_WARP cfg"

definition right_of :: "config \<Rightarrow> real \<times> real \<Rightarrow> real" where
  "right_of cfg v = ((fst v * MPS2TPS cfg) + (TURNOFFSET cfg * snd v)) * RIGHT_MOTOR_WARP cfg"

subsection \<open>The threads together\<close>

text \<open>
  \<^verbatim>\<open>main\<close> starts two threads running \<^verbatim>\<open>receiverControl\<close> beside its own loop. A step of
  the whole process is one pass of the loop of \<^verbatim>\<open>main\<close>, with the messages its wait
  delivered, or one pass of the loop of a receiver thread, with the text it read.
  (\<^verbatim>\<open>encoderControl\<close> only sleeps.) Passes are the grain of this interleaving: a pass
  of one thread is not cut in two by a pass of another.
\<close>

datatype step = Supervisor "(real \<times> real) list" | Monitor string

definition system_step :: "config \<Rightarrow> driver \<Rightarrow> step \<Rightarrow> world \<Rightarrow> world" where
  "system_step cfg hw st s =
     (case st of
        Supervisor msgs \<Rightarrow> main_loop_body cfg hw msgs s
      | Monitor buf \<Rightarrow> receiverControl_body buf s)"

subsection \<open>The Kinematics Translator as the specification words it\<close>

text \<open>
  These four definitions follow section 4.1 of the specification, not the code; they
  are what \<^verbatim>\<open>setVelocity\<close> is compared with.
\<close>

definition metersPerSecondToTicksPerSecond :: "config \<Rightarrow> real" where
  "metersPerSecondToTicksPerSecond cfg =
     ENCODER_RESOLUTION cfg * GEARRATIO cfg / (2 * WHEEL_RADIUS cfg * pi)"

definition turnOffset :: "config \<Rightarrow> real" where
  "turnOffset cfg = metersPerSecondToTicksPerSecond cfg * ROBOT_RADIUS cfg"

definition leftVelocity :: "config \<Rightarrow> real \<Rightarrow> real \<Rightarrow> real" where
  "leftVelocity cfg lin ang =
     (lin * metersPerSecondToTicksPerSecond cfg - turnOffset cfg * ang) * LEFT_MOTOR_WARP cfg"

definition rightVelocity :: "config \<Rightarrow> real \<Rightarrow> real \<Rightarrow> real" where
  "rightVelocity cfg lin ang =
     (lin * metersPerSecondToTicksPerSecond cfg + turnOffset cfg * ang) * RIGHT_MOTOR_WARP cfg"

subsection \<open>Concrete inputs\<close>

text \<open>
  A robot with two motors, the right one on channel 0 and the left one on channel 1 (the
  order of the array \<^verbatim>\<open>m\<close> in \<^verbatim>\<open>main\<close>), a top speed of 2, and mirrored wheels.
\<close>

definition demo :: config where
  "demo = \<lparr>NUMBER_OF_MOTORS = 2, LEFT_MOTOR_CHANNEL = 1, RIGHT_MOTOR_CHANNEL = 0,
            TOPSPEED = 2, ENCODER_RESOLUTION = 4000, GEARRATIO = 20, WHEEL_RADIUS = 1 / 10,
            ROBOT_RADIUS = 1 / 4, LEFT_MOTOR_WARP = 1, RIGHT_MOTOR_WARP = - 1\<rparr>"

text \<open>
  Controllers that accept every command, that reject every command, where only zeroing
  the encoder of channel 1 fails, where only setting a velocity fails, and where only
  setting the velocity of the left wheel (channel 1) or of the right wheel (channel 0)
  fails.
\<close>

definition hw_ok :: driver where
  "hw_ok tr i c = True"

definition hw_dead :: driver where
  "hw_dead tr i c = False"

definition hw_encoder1_fails :: driver where
  "hw_encoder1_fails tr i c = (\<not> (i = 1 \<and> c = SetEncoder 0))"

definition hw_velocity_fails :: driver where
  "hw_velocity_fails tr i c = (\<not> is_SetVelocity c)"

definition hw_left_velocity_fails :: driver where
  "hw_left_velocity_fails tr i c = (\<not> (i = 1 \<and> is_SetVelocity c))"

definition hw_right_velocity_fails :: driver where
  "hw_right_velocity_fails tr i c = (\<not> (i = 0 \<and> is_SetVelocity c))"

text \<open>A world with nothing in its trace, the motors enabled or not.\<close>

definition idle :: "bool \<Rightarrow> world" where
  "idle en = \<lparr>g_watchdog_tripped = False, g_motors_enabled = en,
              g_linear_velocity = 0, g_angular_velocity = 0, trace = []\<rparr>"

section \<open>Auxiliary facts\<close>

lemma calls_append [simp]: "calls (xs @ ys) = calls xs @ calls ys"
  by (induction xs rule: calls.induct) simp_all

lemma replies_append [simp]: "replies (xs @ ys) = replies xs @ replies ys"
  by (induction xs rule: replies.induct) simp_all

lemma logs_append [simp]: "logs (xs @ ys) = logs xs @ logs ys"
  by (induction xs rule: logs.induct) simp_all

lemma answered_by_append:
  "answered_by hw pre (xs @ ys) \<longleftrightarrow> answered_by hw pre xs \<and> answered_by hw (pre @ xs) ys"
  by (induction hw pre xs rule: answered_by.induct) simp_all

lemma length_replies: "length (replies es) = length (calls es)"
  by (induction es rule: calls.induct) simp_all

lemma abs_int_double_to_int_le: "real_of_int (abs_int (double_to_int x)) \<le> \<bar>x\<bar>"
proof (cases "0 \<le> x")
  case True
  then have "0 \<le> \<lfloor>x\<rfloor>" by simp
  then have "abs_int (double_to_int x) = \<lfloor>x\<rfloor>"
    using True by (simp add: abs_int_def double_to_int_def)
  moreover have "real_of_int \<lfloor>x\<rfloor> \<le> x" by (rule of_int_floor_le)
  ultimately show ?thesis using True by simp
next
  case False
  then have d: "double_to_int x = \<lceil>x\<rceil>"
    by (simp add: double_to_int_def)
  have up: "x \<le> real_of_int \<lceil>x\<rceil>" by (rule le_of_int_ceiling)
  show ?thesis
  proof (cases "\<lceil>x\<rceil> < 0")
    case True
    then have "abs_int \<lceil>x\<rceil> = - \<lceil>x\<rceil>" by (simp only: abs_int_def if_True)
    with up False show ?thesis unfolding d by simp
  next
    case neg: False
    then have "abs_int \<lceil>x\<rceil> = \<lceil>x\<rceil>" by (simp only: abs_int_def if_False)
    moreover have "\<lceil>x\<rceil> \<le> 0" using False by simp
    then have "real_of_int \<lceil>x\<rceil> \<le> 0" by simp
    ultimately show ?thesis unfolding d using False by linarith
  qed
qed

lemma within_limit_passes: "\<bar>lin\<bar> \<le> TOPSPEED cfg \<Longrightarrow> \<not> overspeed cfg lin"
  using abs_int_double_to_int_le [of lin] by (simp add: overspeed_def)

lemma invoke_eq:
  "invoke hw i c s = (hw (trace s) i c, s\<lparr>trace := trace s @ [Drv i c (hw (trace s) i c)]\<rparr>)"
  by (simp add: invoke_def Let_def)

lemma attempt_eq:
  "attempt hw i c (b, s) =
     (b \<and> hw (trace s) i c, s\<lparr>trace := trace s @ [Drv i c (hw (trace s) i c)]\<rparr>)"
  by (simp add: attempt_def invoke_eq)

lemma killMotors_body_eq:
  "\<exists>new. killMotors_body hw i (b, s) = (b \<and> False \<notin> set (replies new), s\<lparr>trace := trace s @ new\<rparr>)
      \<and> calls new = kill_sequence i \<and> logs new = []"
  apply (simp add: killMotors_body_def attempt_eq Let_def kill_sequence_def)
  apply (rule exI[of _ "[Drv i StopMotor (hw (trace s) i StopMotor), Drv i (ToggleMotor False) (hw (trace s @ [Drv i StopMotor (hw (trace s) i StopMotor)]) i (ToggleMotor False))]"])
  apply auto
  done

lemma kill_fold:
  "\<exists>new. fold (killMotors_body hw) is (b, s) = (b \<and> False \<notin> set (replies new), s\<lparr>trace := trace s @ new\<rparr>)
      \<and> calls new = concat (map kill_sequence is) \<and> logs new = []"
proof (induction "is" arbitrary: b s)
  case Nil
  show ?case by (intro exI[of _ "[]"]) simp
next
  case (Cons i "is")
  obtain n1 where 1: "killMotors_body hw i (b, s) = (b \<and> False \<notin> set (replies n1), s\<lparr>trace := trace s @ n1\<rparr>)"
     "calls n1 = kill_sequence i" "logs n1 = []"
    using killMotors_body_eq by blast
  obtain n2 where 2: "fold (killMotors_body hw) is (b \<and> False \<notin> set (replies n1), s\<lparr>trace := trace s @ n1\<rparr>)
      = ((b \<and> False \<notin> set (replies n1)) \<and> False \<notin> set (replies n2), s\<lparr>trace := trace s @ n1\<rparr>\<lparr>trace := trace (s\<lparr>trace := trace s @ n1\<rparr>) @ n2\<rparr>)"
     "calls n2 = concat (map kill_sequence is)" "logs n2 = []"
    using Cons.IH by blast
  show ?case
    by (rule exI[of _ "n1 @ n2"]) (auto simp add: 1 2)
qed

lemma initMotors_body_eq:
  "\<exists>new. initMotors_body hw i (b, s) = (b \<and> False \<notin> set (replies new), s\<lparr>trace := trace s @ new\<rparr>)
      \<and> calls new = init_sequence i
      \<and> logs new = (if b \<and> False \<notin> set (replies new) then [] else [(INFO, FAIL_MOTOR i)])"
proof -
  define r1 where "r1 = hw (trace s) i StopMotor"
  define t1 where "t1 = trace s @ [Drv i StopMotor r1]"
  define r2 where "r2 = hw t1 i (SetMode 5)"
  define t2 where "t2 = t1 @ [Drv i (SetMode 5) r2]"
  define r3 where "r3 = hw t2 i (SetEncoder 0)"
  define t3 where "t3 = t2 @ [Drv i (SetEncoder 0) r3]"
  define r4 where "r4 = hw t3 i (ToggleMotor True)"
  define ok where "ok = (b \<and> r1 \<and> r2 \<and> r3 \<and> r4)"
  define new where "new = [Drv i StopMotor r1, Drv i (SetMode 5) r2, Drv i (SetEncoder 0) r3,
      Drv i (ToggleMotor True) r4] @ (if ok then [] else [Log INFO (FAIL_MOTOR i)])"
  have a1: "attempt hw i StopMotor (b, s) = (b \<and> r1, s\<lparr>trace := t1\<rparr>)"
    by (simp add: attempt_eq r1_def t1_def)
  have a2: "attempt hw i (SetMode 5) (b \<and> r1, s\<lparr>trace := t1\<rparr>) = ((b \<and> r1) \<and> r2, s\<lparr>trace := t2\<rparr>)"
    by (simp add: attempt_eq r2_def t2_def)
  have a3: "attempt hw i (SetEncoder 0) ((b \<and> r1) \<and> r2, s\<lparr>trace := t2\<rparr>)
      = (((b \<and> r1) \<and> r2) \<and> r3, s\<lparr>trace := t3\<rparr>)"
    by (simp add: attempt_eq r3_def t3_def)
  have a4: "attempt hw i (ToggleMotor True) (((b \<and> r1) \<and> r2) \<and> r3, s\<lparr>trace := t3\<rparr>)
      = (ok, s\<lparr>trace := t3 @ [Drv i (ToggleMotor True) r4]\<rparr>)"
    by (simp add: attempt_eq r4_def ok_def)
  have t: "trace s @ new = t3 @ [Drv i (ToggleMotor True) r4] @ (if ok then [] else [Log INFO (FAIL_MOTOR i)])"
    by (simp add: new_def t1_def t2_def t3_def)
  have body: "initMotors_body hw i (b, s) = (ok, s\<lparr>trace := trace s @ new\<rparr>)"
    unfolding initMotors_body_def a1 a2 a3 a4 Let_def t
    by (simp add: ros_log_def)
  have ok: "ok = (b \<and> False \<notin> set (replies new))"
    by (auto simp: new_def ok_def)
  have c: "calls new = init_sequence i"
    by (simp add: new_def init_sequence_def)
  have l: "logs new = (if ok then [] else [(INFO, FAIL_MOTOR i)])"
    by (simp add: new_def)
  show ?thesis
    using body c l unfolding ok by (intro exI[of _ new]) simp
qed

lemma emitted_extend [simp]: "emitted s (s\<lparr>trace := trace s @ new\<rparr>) = new"
  by (simp add: emitted_def)

lemma init_fold:
  "\<exists>new. fold (initMotors_body hw) is (b, s) = (b \<and> False \<notin> set (replies new), s\<lparr>trace := trace s @ new\<rparr>)
      \<and> calls new = concat (map init_sequence is) \<and> ERROR \<notin> fst ` set (logs new)"
proof (induction "is" arbitrary: b s)
  case Nil
  show ?case by (intro exI[of _ "[]"]) simp
next
  case (Cons i "is")
  obtain n1 where 1: "initMotors_body hw i (b, s) = (b \<and> False \<notin> set (replies n1), s\<lparr>trace := trace s @ n1\<rparr>)"
     "calls n1 = init_sequence i"
     "logs n1 = (if b \<and> False \<notin> set (replies n1) then [] else [(INFO, FAIL_MOTOR i)])"
    using initMotors_body_eq by blast
  obtain n2 where 2: "fold (initMotors_body hw) is (b \<and> False \<notin> set (replies n1), s\<lparr>trace := trace s @ n1\<rparr>)
      = ((b \<and> False \<notin> set (replies n1)) \<and> False \<notin> set (replies n2),
         s\<lparr>trace := trace s @ n1\<rparr>\<lparr>trace := trace (s\<lparr>trace := trace s @ n1\<rparr>) @ n2\<rparr>)"
     "calls n2 = concat (map init_sequence is)" "ERROR \<notin> fst ` set (logs n2)"
    using Cons.IH by blast
  have "ERROR \<notin> fst ` set (logs n1)"
    by (simp add: 1(3))
  with 1 2 show ?case
    by (intro exI[of _ "n1 @ n2"]) auto
qed

lemma initMotors_eq:
  "\<exists>new. initMotors cfg hw s = (False \<notin> set (replies new), s\<lparr>trace := trace s @ new\<rparr>)
      \<and> calls new = concat (map init_sequence [0..<NUMBER_OF_MOTORS cfg])
      \<and> ((ERROR, Motors_failed_to_initialize) \<in> set (logs new) \<longleftrightarrow> False \<in> set (replies new))"
proof -
  obtain n1 where 1: "fold (initMotors_body hw) [0..<NUMBER_OF_MOTORS cfg] (True, s)
       = (True \<and> False \<notin> set (replies n1), s\<lparr>trace := trace s @ n1\<rparr>)"
     "calls n1 = concat (map init_sequence [0..<NUMBER_OF_MOTORS cfg])"
     "ERROR \<notin> fst ` set (logs n1)"
    using init_fold by blast
  show ?thesis
  proof (cases "False \<in> set (replies n1)")
    case True
    with 1 show ?thesis
      by (intro exI[of _ "n1 @ [Log ERROR Motors_failed_to_initialize]"])
         (simp add: initMotors_def ros_log_def)
  next
    case False
    from 1(3) have "(ERROR, Motors_failed_to_initialize) \<notin> set (logs n1)"
      by force
    with False 1 show ?thesis
      by (intro exI[of _ n1]) (simp add: initMotors_def)
  qed
qed

lemma killMotors_eq:
  "\<exists>new. killMotors cfg hw s = (False \<notin> set (replies new), s\<lparr>trace := trace s @ new\<rparr>)
      \<and> calls new = concat (map kill_sequence [0..<NUMBER_OF_MOTORS cfg]) \<and> logs new = []"
  using kill_fold [of hw "[0..<NUMBER_OF_MOTORS cfg]" True s] by (simp add: killMotors_def)

lemma setVelocity_eq:
  "\<exists>new. setVelocity cfg hw lin ang s = (False \<notin> set (replies new), s\<lparr>trace := trace s @ new\<rparr>)
      \<and> calls new =
          [(LEFT_MOTOR_CHANNEL cfg, SetVelocity (left_of cfg (effective cfg (lin, ang)))),
           (RIGHT_MOTOR_CHANNEL cfg, SetVelocity (right_of cfg (effective cfg (lin, ang))))]
      \<and> logs new =
          [(INFO, Linear_angular lin ang)] @
          (if overspeed cfg lin then [(ERROR, GO_SLOWER)] else []) @
          [(INFO, Left_right_velocity (left_of cfg (effective cfg (lin, ang)))
                    (right_of cfg (effective cfg (lin, ang))))] @
          (if False \<in> set (replies new) then [(ERROR, Motors_failed_to_setVelocity)] else [])
      \<and> answered_by hw (trace s) new"
proof -
  define L where "L = left_of cfg (effective cfg (lin, ang))"
  define R where "R = right_of cfg (effective cfg (lin, ang))"
  define pre where "pre = [Log INFO (Linear_angular lin ang)] @
     (if overspeed cfg lin then [Log ERROR GO_SLOWER] else []) @ [Log INFO (Left_right_velocity L R)]"
  define r1 where "r1 = hw (trace s @ pre) (LEFT_MOTOR_CHANNEL cfg) (SetVelocity L)"
  define e1 where "e1 = pre @ [Drv (LEFT_MOTOR_CHANNEL cfg) (SetVelocity L) r1]"
  define r2 where "r2 = hw (trace s @ e1) (RIGHT_MOTOR_CHANNEL cfg) (SetVelocity R)"
  define e2 where "e2 = e1 @ [Drv (RIGHT_MOTOR_CHANNEL cfg) (SetVelocity R) r2]"
  define new where "new = e2 @ (if r1 \<and> r2 then [] else [Log ERROR Motors_failed_to_setVelocity])"
  have ok: "(r1 \<and> r2) = (False \<notin> set (replies new))"
    by (auto simp: new_def e2_def e1_def pre_def)
  have body: "setVelocity cfg hw lin ang s = (r1 \<and> r2, s\<lparr>trace := trace s @ new\<rparr>)"
    by (simp add: setVelocity_def Let_def ros_log_def invoke_eq effective_def overspeed_def
        left_of_def right_of_def new_def e2_def e1_def r2_def r1_def pre_def L_def R_def)
  have c: "calls new = [(LEFT_MOTOR_CHANNEL cfg, SetVelocity L), (RIGHT_MOTOR_CHANNEL cfg, SetVelocity R)]"
    by (simp add: new_def e2_def e1_def pre_def)
  have l: "logs new = [(INFO, Linear_angular lin ang)] @
          (if overspeed cfg lin then [(ERROR, GO_SLOWER)] else []) @
          [(INFO, Left_right_velocity L R)] @
          (if r1 \<and> r2 then [] else [(ERROR, Motors_failed_to_setVelocity)])"
    by (simp add: new_def e2_def e1_def pre_def)
  have p: "answered_by hw (trace s) pre"
    by (simp add: pre_def)
  have a: "answered_by hw (trace s) new"
    unfolding new_def e2_def e1_def answered_by_append
    using p by (simp add: r1_def r2_def e1_def)
  show ?thesis
    using body c l a unfolding ok L_def R_def by (intro exI[of _ new]) simp
qed

lemma callAvailable_eq:
  "callAvailable msgs s =
     (if msgs = [] then s
      else s\<lparr>g_watchdog_tripped := True,
             g_linear_velocity := fst (last msgs),
             g_angular_velocity := snd (last msgs)\<rparr>)"
  unfolding callAvailable_def
  by (induction msgs arbitrary: s) (simp_all add: motionCallback_def)

lemma strstr_sublist: "strstr haystack needle \<noteq> None \<longleftrightarrow> sublist needle haystack"
  by (induction haystack) (simp_all add: sublist_Cons_right)

lemma receiverControl_body_eq:
  "receiverControl_body buf s =
     (if sublist ''a?'' buf \<or> sublist '':?'' buf then s\<lparr>g_motors_enabled := False\<rparr> else s)"
  unfolding receiverControl_body_def Let_def strstr_sublist by simp

lemma main_timeout:
  "\<exists>new. main_loop_body cfg hw [] s =
       s\<lparr>g_watchdog_tripped := False, g_motors_enabled := False,
         trace := trace s @ Log WARN Watchdog_timed_out # new\<rparr>
     \<and> calls new = concat (map kill_sequence [0..<NUMBER_OF_MOTORS cfg]) \<and> logs new = []"
proof -
  define s3 where "s3 = ros_log WARN Watchdog_timed_out (s\<lparr>g_watchdog_tripped := False\<rparr>)"
  obtain new where k: "killMotors cfg hw s3 = (False \<notin> set (replies new), s3\<lparr>trace := trace s3 @ new\<rparr>)"
    "calls new = concat (map kill_sequence [0..<NUMBER_OF_MOTORS cfg])" "logs new = []"
    using killMotors_eq by blast
  have "main_loop_body cfg hw [] s = (snd (killMotors cfg hw s3))\<lparr>g_motors_enabled := False\<rparr>"
    by (simp add: main_loop_body_def callAvailable_eq Let_def s3_def split: prod.splits)
  also have "\<dots> = s\<lparr>g_watchdog_tripped := False, g_motors_enabled := False,
         trace := trace s @ Log WARN Watchdog_timed_out # new\<rparr>"
    unfolding k by (simp add: s3_def ros_log_def)
  finally show ?thesis using k(2,3) by blast
qed

lemma main_command:
  assumes "msgs \<noteq> []"
  shows "\<exists>ini vel. main_loop_body cfg hw msgs s =
       s\<lparr>g_watchdog_tripped := True,
         g_linear_velocity := fst (last msgs),
         g_angular_velocity := snd (last msgs),
         g_motors_enabled := (g_motors_enabled s \<or> False \<notin> set (replies ini)),
         trace := trace s @ ini @ vel\<rparr>
     \<and> (if g_motors_enabled s then ini = []
         else calls ini = concat (map init_sequence [0..<NUMBER_OF_MOTORS cfg])
            \<and> fst (initMotors cfg hw (callAvailable msgs (s\<lparr>g_watchdog_tripped := False\<rparr>)))
                 = (False \<notin> set (replies ini)))
     \<and> calls vel =
          [(LEFT_MOTOR_CHANNEL cfg, SetVelocity (left_of cfg (effective cfg (last msgs)))),
           (RIGHT_MOTOR_CHANNEL cfg, SetVelocity (right_of cfg (effective cfg (last msgs))))]"
proof -
  define s2 where "s2 = s\<lparr>g_watchdog_tripped := True,
         g_linear_velocity := fst (last msgs), g_angular_velocity := snd (last msgs)\<rparr>"
  have s2: "callAvailable msgs (s\<lparr>g_watchdog_tripped := False\<rparr>) = s2"
    using assms by (simp add: callAvailable_eq s2_def)
  obtain ini where i: "initMotors cfg hw s2 = (False \<notin> set (replies ini), s2\<lparr>trace := trace s2 @ ini\<rparr>)"
      "calls ini = concat (map init_sequence [0..<NUMBER_OF_MOTORS cfg])"
      "(ERROR, Motors_failed_to_initialize) \<in> set (logs ini) \<longleftrightarrow> False \<in> set (replies ini)"
    using initMotors_eq by blast
  define ini' where "ini' = (if g_motors_enabled s then [] else ini)"
  define s3 where "s3 = s2\<lparr>g_motors_enabled := (g_motors_enabled s \<or> False \<notin> set (replies ini')),
      trace := trace s @ ini'\<rparr>"
  obtain vel where v: "setVelocity cfg hw (fst (last msgs)) (snd (last msgs)) s3
       = (False \<notin> set (replies vel), s3\<lparr>trace := trace s3 @ vel\<rparr>)"
     "calls vel =
          [(LEFT_MOTOR_CHANNEL cfg, SetVelocity (left_of cfg (effective cfg (fst (last msgs), snd (last msgs))))),
           (RIGHT_MOTOR_CHANNEL cfg, SetVelocity (right_of cfg (effective cfg (fst (last msgs), snd (last msgs)))))]"
    using setVelocity_eq by blast
  have f: "g_watchdog_tripped s2" "g_motors_enabled s2 = g_motors_enabled s"
    by (simp_all add: s2_def)
  have g: "g_linear_velocity s3 = fst (last msgs)" "g_angular_velocity s3 = snd (last msgs)"
    by (simp_all add: s3_def s2_def)
  have "main_loop_body cfg hw msgs s = snd (setVelocity cfg hw (fst (last msgs)) (snd (last msgs)) s3)"
  proof (cases "g_motors_enabled s")
    case True
    then have "s3 = s2"
      by (simp add: s3_def ini'_def s2_def)
    with True show ?thesis
      by (simp add: main_loop_body_def Let_def s2 f case_prod_beta g[symmetric])
  next
    case False
    then have "s3 = (snd (initMotors cfg hw s2))\<lparr>g_motors_enabled := fst (initMotors cfg hw s2)\<rparr>"
      unfolding i by (simp add: s3_def ini'_def s2_def)
    with False show ?thesis
      by (simp add: main_loop_body_def Let_def s2 f case_prod_beta g[symmetric])
  qed
  also have "\<dots> = s3\<lparr>trace := trace s3 @ vel\<rparr>"
    unfolding v by (simp add: s3_def s2_def)
  finally have "main_loop_body cfg hw msgs s = s\<lparr>g_watchdog_tripped := True,
         g_linear_velocity := fst (last msgs),
         g_angular_velocity := snd (last msgs),
         g_motors_enabled := (g_motors_enabled s \<or> False \<notin> set (replies ini')),
         trace := trace s @ ini' @ vel\<rparr>"
    by (simp add: s3_def s2_def)
  moreover have "if g_motors_enabled s then ini' = []
         else calls ini' = concat (map init_sequence [0..<NUMBER_OF_MOTORS cfg])
            \<and> fst (initMotors cfg hw (callAvailable msgs (s\<lparr>g_watchdog_tripped := False\<rparr>)))
                 = (False \<notin> set (replies ini'))"
    unfolding s2 i using i(2) by (simp add: ini'_def)
  ultimately show ?thesis using v(2) by (intro exI[of _ ini'] exI[of _ vel]) simp
qed

lemma upt2: "[0..<2] = [0, Suc 0]"
  by (simp add: upt_rec numeral_2_eq_2)

lemmas evals = main_loop_body_def callAvailable_def motionCallback_def initMotors_def
  initMotors_body_def killMotors_def killMotors_body_def attempt_def invoke_def ros_log_def
  setVelocity_def MPS2TPS_def TURNOFFSET_def Let_def emitted_def upt2 idle_def demo_def
  double_to_int_def abs_int_def

lemma no_velocity_in_kill_sequence:
  "filter (is_SetVelocity \<circ> snd) (concat (map kill_sequence is)) = []"
  by (induction "is") (simp_all add: kill_sequence_def)

lemma effective_over: "overspeed cfg lin \<Longrightarrow> effective cfg (lin, ang) = (0, 0)"
  by (simp add: effective_def)

lemma effective_within: "\<bar>lin\<bar> \<le> TOPSPEED cfg \<Longrightarrow> effective cfg (lin, ang) = (lin, ang)"
  by (simp add: effective_def within_limit_passes)

lemma wheels_at_rest: "left_of cfg (0, 0) = 0" "right_of cfg (0, 0) = 0"
  by (simp_all add: left_of_def right_of_def)

lemma main_startup_eq:
  "main_startup cfg hw =
     (if fst (initMotors cfg hw global_variable_initialization)
      then Inr ((snd (initMotors cfg hw global_variable_initialization))\<lparr>g_motors_enabled := True\<rparr>)
      else Inl (- 1))"
  by (simp add: main_startup_def Let_def case_prod_beta)

section \<open>The claims\<close>

subsection \<open>C1: a command arriving while the motors are disabled\<close>

text \<open>
  C1 says that in a pass of the loop in which a command arrived while \<open>g_motors_enabled\<close>
  is false, re-initialization is attempted and velocity is applied only if it succeeded.
  The code does attempt it, but line 126 calls \<^verbatim>\<open>setVelocity\<close> outside the \<^verbatim>\<open>if\<close> of line
  121: with controllers that reject everything, re-initialization fails, the flag stays
  false, and both wheels are still sent a velocity.
\<close>

theorem C1_counterexample:
  "fst (initMotors demo hw_dead
          (callAvailable [(1, 0)] ((idle False)\<lparr>g_watchdog_tripped := False\<rparr>))) = False
   \<and> g_motors_enabled (main_loop_body demo hw_dead [(1, 0)] (idle False)) = False
   \<and> filter (is_SetVelocity \<circ> snd)
        (calls (emitted (idle False) (main_loop_body demo hw_dead [(1, 0)] (idle False))))
      = [(1, SetVelocity (400000 / pi)), (0, SetVelocity (- (400000 / pi)))]"
  by (simp add: evals hw_dead_def)

text \<open>
  C1, as amended: in every pass of the loop in which a command arrived while
  \<open>g_motors_enabled\<close> is false, re-initialization is attempted (the whole sequence, on
  every channel) and the flag is set to its result; the pass then calls \<^verbatim>\<open>setVelocity\<close>
  on the left and the right channel with the wheel velocities of the latest command,
  whether or not re-initialization succeeded.
\<close>

theorem C1_reinit_then_velocity:
  assumes "msgs \<noteq> []" and "\<not> g_motors_enabled s"
  shows "g_motors_enabled (main_loop_body cfg hw msgs s)
           = fst (initMotors cfg hw (callAvailable msgs (s\<lparr>g_watchdog_tripped := False\<rparr>)))
       \<and> calls (emitted s (main_loop_body cfg hw msgs s))
           = concat (map init_sequence [0..<NUMBER_OF_MOTORS cfg]) @
             [(LEFT_MOTOR_CHANNEL cfg, SetVelocity (left_of cfg (effective cfg (last msgs)))),
              (RIGHT_MOTOR_CHANNEL cfg, SetVelocity (right_of cfg (effective cfg (last msgs))))]"
proof -
  from main_command [OF assms(1), of cfg hw s] assms(2)
  obtain ini vel where
    "main_loop_body cfg hw msgs s =
       s\<lparr>g_watchdog_tripped := True,
         g_linear_velocity := fst (last msgs),
         g_angular_velocity := snd (last msgs),
         g_motors_enabled := (g_motors_enabled s \<or> False \<notin> set (replies ini)),
         trace := trace s @ ini @ vel\<rparr>"
    "calls ini = concat (map init_sequence [0..<NUMBER_OF_MOTORS cfg])"
    "fst (initMotors cfg hw (callAvailable msgs (s\<lparr>g_watchdog_tripped := False\<rparr>)))
                 = (False \<notin> set (replies ini))"
    "calls vel =
          [(LEFT_MOTOR_CHANNEL cfg, SetVelocity (left_of cfg (effective cfg (last msgs)))),
           (RIGHT_MOTOR_CHANNEL cfg, SetVelocity (right_of cfg (effective cfg (last msgs))))]"
    by auto
  with assms(2) show ?thesis
    by (simp add: emitted_def)
qed

text \<open>
  The amended claim at work: the encoder of the second channel cannot be zeroed, the
  flag stays false, and all eight initialization calls and both velocity calls are made.
\<close>

theorem C1_reinit_then_velocity_witness:
  "[(1, 0)] \<noteq> [] \<and> \<not> g_motors_enabled (idle False)
   \<and> g_motors_enabled (main_loop_body demo hw_encoder1_fails [(1, 0)] (idle False)) = False
   \<and> calls (emitted (idle False) (main_loop_body demo hw_encoder1_fails [(1, 0)] (idle False)))
       = [(0, StopMotor), (0, SetMode 5), (0, SetEncoder 0), (0, ToggleMotor True),
          (1, StopMotor), (1, SetMode 5), (1, SetEncoder 0), (1, ToggleMotor True),
          (1, SetVelocity (400000 / pi)), (0, SetVelocity (- (400000 / pi)))]"
proof -
  have 1: "[(1::real, 0::real)] \<noteq> []" by simp
  have 2: "\<not> g_motors_enabled (idle False)" by (simp add: idle_def)
  have 3: "fst (initMotors demo hw_encoder1_fails
       (callAvailable [(1, 0)] ((idle False)\<lparr>g_watchdog_tripped := False\<rparr>))) = False"
    by (simp add: evals hw_encoder1_fails_def)
  show ?thesis
    using C1_reinit_then_velocity [OF 1 2, of demo hw_encoder1_fails] 1 2 3
    by (simp add: init_sequence_def upt2 left_of_def right_of_def effective_def overspeed_def
        double_to_int_def abs_int_def MPS2TPS_def TURNOFFSET_def demo_def)
qed

subsection \<open>C2: the speed check\<close>

text \<open>
  C2 says that for every input with \<open>\<bar>linear\<bar> > TOPSPEED\<close>, whatever \<open>angular\<close> is,
  \<^verbatim>\<open>setVelocity\<close> behaves as for the input \<open>(0, 0)\<close>: both are forced to 0, a warning is
  raised, and both wheel velocities are 0. The code does not do that for every such
  input. Its test goes through \<^verbatim>\<open>int abs(int)\<close>, so it sees the integer part of
  \<^verbatim>\<open>linear\<close> only: with a top speed of 2, the command \<open>(2.5, 1)\<close> is over the limit, and
  yet nothing is logged but the two information lines, and the wheels are sent the
  velocities of \<open>(2.5, 1)\<close>, not 0.
\<close>

theorem C2_overspeed_not_clamped:
  "\<bar>5 / 2\<bar> > TOPSPEED demo
   \<and> calls (emitted (idle True) (snd (setVelocity demo hw_ok (5 / 2) 1 (idle True))))
       = [(1, SetVelocity (900000 / pi)), (0, SetVelocity (- (1100000 / pi)))]
   \<and> logs (emitted (idle True) (snd (setVelocity demo hw_ok (5 / 2) 1 (idle True))))
       = [(INFO, Linear_angular (5 / 2) 1),
          (INFO, Left_right_velocity (900000 / pi) (- (1100000 / pi)))]"
  by (simp add: evals hw_ok_def)

text \<open>
  The gap does not hang on the top speed being 2: whatever non-negative value
  \<^verbatim>\<open>TOPSPEED\<close> has, some command over the limit passes the test.
\<close>

lemma speed_check_gap:
  assumes "0 \<le> TOPSPEED cfg"
  shows "\<exists>lin. \<bar>lin\<bar> > TOPSPEED cfg \<and> \<not> overspeed cfg lin"
proof -
  define n where "n = \<lfloor>TOPSPEED cfg\<rfloor>"
  define lin where "lin = (TOPSPEED cfg + real_of_int n + 1) / 2"
  have lo: "real_of_int n \<le> TOPSPEED cfg"
    unfolding n_def by (rule of_int_floor_le)
  have hi: "TOPSPEED cfg < real_of_int n + 1"
    unfolding n_def by linarith
  have 1: "TOPSPEED cfg < lin" and 2: "lin < real_of_int n + 1" and 3: "real_of_int n \<le> lin"
    using lo hi by (simp_all add: lin_def)
  have "\<lfloor>lin\<rfloor> = n"
    using 2 3 by (simp add: floor_eq_iff)
  moreover have "0 \<le> lin"
    using assms 1 by simp
  moreover have "0 \<le> n"
    using assms by (simp add: n_def)
  ultimately have "abs_int (double_to_int lin) = n"
    by (simp add: double_to_int_def abs_int_def)
  then have "\<not> overspeed cfg lin"
    using lo by (simp add: overspeed_def)
  moreover have "\<bar>lin\<bar> > TOPSPEED cfg"
    using 1 by simp
  ultimately show ?thesis by blast
qed

text \<open>
  What the test does catch is a command whose integer part is over the limit, as in
  Scenario C of the specification, \<open>(10, 2)\<close> with a top speed of 2: then both wheels are
  sent 0 and \<^verbatim>\<open>GO SLOWER!\<close> is logged with \<^verbatim>\<open>ROS_ERROR\<close>.
\<close>

lemma setVelocity_stops_beyond_integer_part:
  assumes "overspeed cfg lin"
  shows "calls (emitted s (snd (setVelocity cfg hw lin ang s)))
           = [(LEFT_MOTOR_CHANNEL cfg, SetVelocity 0), (RIGHT_MOTOR_CHANNEL cfg, SetVelocity 0)]
       \<and> (ERROR, GO_SLOWER) \<in> set (logs (emitted s (snd (setVelocity cfg hw lin ang s))))"
proof -
  obtain new where new:
    "setVelocity cfg hw lin ang s = (False \<notin> set (replies new), s\<lparr>trace := trace s @ new\<rparr>)"
    "calls new =
       [(LEFT_MOTOR_CHANNEL cfg, SetVelocity (left_of cfg (effective cfg (lin, ang)))),
        (RIGHT_MOTOR_CHANNEL cfg, SetVelocity (right_of cfg (effective cfg (lin, ang))))]"
    "logs new =
       [(INFO, Linear_angular lin ang)] @
       (if overspeed cfg lin then [(ERROR, GO_SLOWER)] else []) @
       [(INFO, Left_right_velocity (left_of cfg (effective cfg (lin, ang)))
                 (right_of cfg (effective cfg (lin, ang))))] @
       (if False \<in> set (replies new) then [(ERROR, Motors_failed_to_setVelocity)] else [])"
    using setVelocity_eq by blast
  have e: "emitted s (snd (setVelocity cfg hw lin ang s)) = new"
    by (simp add: new(1))
  show ?thesis
    unfolding e using assms new(2)
    by (simp add: new(3) effective_over [OF assms] wheels_at_rest)
qed

lemma scenario_C:
  "overspeed demo 10
   \<and> calls (emitted (idle True) (snd (setVelocity demo hw_ok 10 2 (idle True))))
       = [(1, SetVelocity 0), (0, SetVelocity 0)]"
proof -
  have h: "overspeed demo 10"
    by (simp add: overspeed_def double_to_int_def abs_int_def demo_def)
  show ?thesis
    using h setVelocity_stops_beyond_integer_part [OF h, of "idle True" hw_ok 2]
    by (simp add: demo_def)
qed

subsection \<open>C3: the watchdog timeout\<close>

text \<open>
  C3: in every pass of the loop in which no command arrived within the timeout, the
  supervisor first logs the watchdog warning and logs nothing else, calls stop and then
  disable on each motor channel in turn and calls nothing else (so no velocity is set),
  and leaves \<open>g_motors_enabled\<close> false.
\<close>

theorem C3_watchdog_timeout:
  "let s' = main_loop_body cfg hw [] s; new = emitted s s' in
     trace s' = trace s @ new
   \<and> take 1 new = [Log WARN Watchdog_timed_out]
   \<and> logs new = [(WARN, Watchdog_timed_out)]
   \<and> calls new = concat (map kill_sequence [0..<NUMBER_OF_MOTORS cfg])
   \<and> filter (is_SetVelocity \<circ> snd) (calls new) = []
   \<and> g_motors_enabled s' = False"
proof -
  obtain new where new:
    "main_loop_body cfg hw [] s =
       s\<lparr>g_watchdog_tripped := False, g_motors_enabled := False,
         trace := trace s @ Log WARN Watchdog_timed_out # new\<rparr>"
    "calls new = concat (map kill_sequence [0..<NUMBER_OF_MOTORS cfg])" "logs new = []"
    using main_timeout by blast
  have e: "emitted s (main_loop_body cfg hw [] s) = Log WARN Watchdog_timed_out # new"
    by (simp add: new(1) emitted_def)
  show ?thesis
    unfolding Let_def e
    by (simp add: new no_velocity_in_kill_sequence)
qed

text \<open>
  A timeout on the concrete robot, with the motors enabled and controllers that accept
  everything.
\<close>

theorem C3_watchdog_timeout_witness:
  "emitted (idle True) (main_loop_body demo hw_ok [] (idle True))
     = [Log WARN Watchdog_timed_out,
        Drv 0 StopMotor True, Drv 0 (ToggleMotor False) True,
        Drv 1 StopMotor True, Drv 1 (ToggleMotor False) True]
   \<and> calls (emitted (idle True) (main_loop_body demo hw_ok [] (idle True)))
     = [(0, StopMotor), (0, ToggleMotor False), (1, StopMotor), (1, ToggleMotor False)]
   \<and> g_motors_enabled (main_loop_body demo hw_ok [] (idle True)) = False"
proof -
  have e: "emitted (idle True) (main_loop_body demo hw_ok [] (idle True))
     = [Log WARN Watchdog_timed_out,
        Drv 0 StopMotor True, Drv 0 (ToggleMotor False) True,
        Drv 1 StopMotor True, Drv 1 (ToggleMotor False) True]"
    by (simp add: evals hw_ok_def)
  show ?thesis
    using C3_watchdog_timeout [of demo hw_ok "idle True"] e
    by (simp add: Let_def)
qed

subsection \<open>C4: the fault monitor\<close>

text \<open>
  C4: after a pass of the loop of \<^verbatim>\<open>receiverControl\<close>, \<open>g_motors_enabled\<close> is true exactly
  when it was true before and the text read contains neither the emergency-stop marker
  \<^verbatim>\<open>a?\<close> nor the marker \<^verbatim>\<open>:?\<close> of a command sent to a motor that is off. So the pass sets
  the flag to false when a marker is there, leaves it as it was otherwise, and never
  sets it to true; and nothing else of the world changes.
\<close>

theorem C4_fault_monitor:
  "let s' = receiverControl_body buf s in
     g_motors_enabled s' = (g_motors_enabled s \<and> \<not> sublist ''a?'' buf \<and> \<not> sublist '':?'' buf)
   \<and> s' = s\<lparr>g_motors_enabled := g_motors_enabled s'\<rparr>"
  by (simp add: receiverControl_body_eq)

text \<open>Three reads: an emergency stop, a rejected command, and text without a marker.\<close>

theorem C4_fault_monitor_witness:
  "g_motors_enabled (receiverControl_body ''12a?;'' (idle True)) = False
   \<and> g_motors_enabled (receiverControl_body ''JV:?'' (idle True)) = False
   \<and> g_motors_enabled (receiverControl_body ''a:?'' (idle False)) = False
   \<and> g_motors_enabled (receiverControl_body ''?a:'' (idle True)) = True
   \<and> receiverControl_body ''?a:'' (idle False) = idle False"
proof -
  have m: "sublist ''a?'' ''12a?;''" "sublist '':?'' ''JV:?''" "sublist '':?'' ''a:?''"
    "\<not> sublist ''a?'' ''?a:''" "\<not> sublist '':?'' ''?a:''"
    by (simp_all add: sublist_Cons_right)
  have 1: "g_motors_enabled (receiverControl_body ''12a?;'' (idle True)) = False"
    using C4_fault_monitor [of "''12a?;''" "idle True"] m(1) by (simp add: Let_def)
  have 2: "g_motors_enabled (receiverControl_body ''JV:?'' (idle True)) = False"
    using C4_fault_monitor [of "''JV:?''" "idle True"] m(2) by (simp add: Let_def)
  have 3: "g_motors_enabled (receiverControl_body ''a:?'' (idle False)) = False"
    using C4_fault_monitor [of "''a:?''" "idle False"] m(3) by (simp add: Let_def)
  have 4: "g_motors_enabled (receiverControl_body ''?a:'' (idle True)) = True"
    using C4_fault_monitor [of "''?a:''" "idle True"] m(4,5) by (simp add: Let_def idle_def)
  define s5 where "s5 = receiverControl_body ''?a:'' (idle False)"
  have A: "g_motors_enabled s5 = False"
    using C4_fault_monitor [of "''?a:''" "idle False"] m(4,5)
    by (simp add: Let_def s5_def idle_def)
  have B: "s5 = (idle False)\<lparr>g_motors_enabled := g_motors_enabled s5\<rparr>"
    using C4_fault_monitor [of "''?a:''" "idle False", unfolded Let_def]
    unfolding s5_def by (rule conjunct2)
  have "s5 = idle False"
    by (subst B, subst A) (simp add: idle_def)
  then have 5: "receiverControl_body ''?a:'' (idle False) = idle False"
    by (simp add: s5_def)
  show ?thesis
    using 1 2 3 4 5 by simp
qed

subsection \<open>C5: the wheel velocities of an in-limit command\<close>

text \<open>
  C5: for every input with \<open>\<bar>linear\<bar> \<le> TOPSPEED\<close>, \<^verbatim>\<open>setVelocity\<close> sends the left channel
  exactly \<open>(linear * metersPerSecondToTicksPerSecond - turnOffset * angular) * leftWarp\<close>
  and the right channel exactly
  \<open>(linear * metersPerSecondToTicksPerSecond + turnOffset * angular) * rightWarp\<close>, with
  the two constants as the specification defines them; it sends nothing else, and it
  logs the same two numbers.
\<close>

theorem C5_in_limit_velocities:
  assumes "\<bar>lin\<bar> \<le> TOPSPEED cfg"
  shows "calls (emitted s (snd (setVelocity cfg hw lin ang s)))
           = [(LEFT_MOTOR_CHANNEL cfg, SetVelocity (leftVelocity cfg lin ang)),
              (RIGHT_MOTOR_CHANNEL cfg, SetVelocity (rightVelocity cfg lin ang))]
       \<and> (INFO, Left_right_velocity (leftVelocity cfg lin ang) (rightVelocity cfg lin ang))
           \<in> set (logs (emitted s (snd (setVelocity cfg hw lin ang s))))"
proof -
  obtain new where new:
    "setVelocity cfg hw lin ang s = (False \<notin> set (replies new), s\<lparr>trace := trace s @ new\<rparr>)"
    "calls new =
       [(LEFT_MOTOR_CHANNEL cfg, SetVelocity (left_of cfg (effective cfg (lin, ang)))),
        (RIGHT_MOTOR_CHANNEL cfg, SetVelocity (right_of cfg (effective cfg (lin, ang))))]"
    "logs new =
       [(INFO, Linear_angular lin ang)] @
       (if overspeed cfg lin then [(ERROR, GO_SLOWER)] else []) @
       [(INFO, Left_right_velocity (left_of cfg (effective cfg (lin, ang)))
                 (right_of cfg (effective cfg (lin, ang))))] @
       (if False \<in> set (replies new) then [(ERROR, Motors_failed_to_setVelocity)] else [])"
    using setVelocity_eq by blast
  have e: "emitted s (snd (setVelocity cfg hw lin ang s)) = new"
    by (simp add: new(1))
  have L: "left_of cfg (effective cfg (lin, ang)) = leftVelocity cfg lin ang"
    by (simp add: effective_within [OF assms] left_of_def leftVelocity_def
        metersPerSecondToTicksPerSecond_def turnOffset_def MPS2TPS_def TURNOFFSET_def)
  have R: "right_of cfg (effective cfg (lin, ang)) = rightVelocity cfg lin ang"
    by (simp add: effective_within [OF assms] right_of_def rightVelocity_def
        metersPerSecondToTicksPerSecond_def turnOffset_def MPS2TPS_def TURNOFFSET_def)
  show ?thesis
    unfolding e using new(2,3) by (simp add: L R)
qed

text \<open>The command \<open>(1, 2)\<close> on the concrete robot.\<close>

theorem C5_in_limit_velocities_witness:
  "\<bar>1\<bar> \<le> TOPSPEED demo
   \<and> calls (emitted (idle True) (snd (setVelocity demo hw_ok 1 2 (idle True))))
       = [(1, SetVelocity (200000 / pi)), (0, SetVelocity (- (600000 / pi)))]"
proof -
  have h: "\<bar>1\<bar> \<le> TOPSPEED demo"
    by (simp add: demo_def)
  have L: "leftVelocity demo 1 2 = 200000 / pi"
    by (simp add: leftVelocity_def metersPerSecondToTicksPerSecond_def turnOffset_def demo_def)
  have R: "rightVelocity demo 1 2 = - (600000 / pi)"
    by (simp add: rightVelocity_def metersPerSecondToTicksPerSecond_def turnOffset_def demo_def)
  show ?thesis
    using h C5_in_limit_velocities [OF h, of "idle True" hw_ok 2]
    by (simp add: L R) (simp add: demo_def)
qed

subsection \<open>C6: initMotors\<close>

text \<open>
  C6: \<^verbatim>\<open>initMotors\<close> calls, channel after channel, stop, set mode, zero the encoder and
  enable, every one of them whatever the replies are, and changes nothing of the world
  besides; it returns true exactly when no reply was false. Its callers store that
  result in \<open>g_motors_enabled\<close>: at startup a failure ends the process with \<^verbatim>\<open>-1\<close>, and in
  a pass of the loop that re-initializes, the flag is the result.
\<close>

theorem C6_initMotors_all_steps:
  "let r = initMotors cfg hw s; new = emitted s (snd r) in
      snd r = s\<lparr>trace := trace s @ new\<rparr>
    \<and> calls new = concat (map init_sequence [0..<NUMBER_OF_MOTORS cfg])
    \<and> fst r = (False \<notin> set (replies new))
    \<and> (main_startup cfg hw = Inl (- 1))
        = (fst (initMotors cfg hw global_variable_initialization) = False)
    \<and> (msgs \<noteq> [] \<and> \<not> g_motors_enabled s0 \<longrightarrow>
         g_motors_enabled (main_loop_body cfg hw msgs s0)
           = fst (initMotors cfg hw (callAvailable msgs (s0\<lparr>g_watchdog_tripped := False\<rparr>))))"
proof -
  obtain new where new:
    "initMotors cfg hw s = (False \<notin> set (replies new), s\<lparr>trace := trace s @ new\<rparr>)"
    "calls new = concat (map init_sequence [0..<NUMBER_OF_MOTORS cfg])"
    using initMotors_eq by blast
  have e: "emitted s (snd (initMotors cfg hw s)) = new"
    by (simp add: new(1))
  have 1: "snd (initMotors cfg hw s) = s\<lparr>trace := trace s @ new\<rparr>"
    "fst (initMotors cfg hw s) = (False \<notin> set (replies new))"
    by (simp_all add: new(1))
  have 2: "(main_startup cfg hw = Inl (- 1))
        = (fst (initMotors cfg hw global_variable_initialization) = False)"
    by (simp add: main_startup_eq)
  have 3: "g_motors_enabled (main_loop_body cfg hw msgs s0)
           = fst (initMotors cfg hw (callAvailable msgs (s0\<lparr>g_watchdog_tripped := False\<rparr>)))"
    if "msgs \<noteq> []" "\<not> g_motors_enabled s0"
  proof -
    from main_command [OF that(1), of cfg hw s0] that(2)
    obtain ini vel where
      "main_loop_body cfg hw msgs s0 =
         s0\<lparr>g_watchdog_tripped := True,
           g_linear_velocity := fst (last msgs),
           g_angular_velocity := snd (last msgs),
           g_motors_enabled := (g_motors_enabled s0 \<or> False \<notin> set (replies ini)),
           trace := trace s0 @ ini @ vel\<rparr>"
      "fst (initMotors cfg hw (callAvailable msgs (s0\<lparr>g_watchdog_tripped := False\<rparr>)))
                 = (False \<notin> set (replies ini))"
      by auto
    with that(2) show ?thesis by simp
  qed
  show ?thesis
    unfolding Let_def e using 1 2 3 new(2) by blast
qed

text \<open>
  Scenario D of the specification: zeroing the encoder of the second channel fails. All
  eight calls are made, \<^verbatim>\<open>initMotors\<close> returns false, startup ends with \<^verbatim>\<open>-1\<close>, and a pass
  of the loop that re-initializes leaves the flag false.
\<close>

theorem C6_initMotors_all_steps_witness:
  "calls (emitted (idle False) (snd (initMotors demo hw_encoder1_fails (idle False))))
     = [(0, StopMotor), (0, SetMode 5), (0, SetEncoder 0), (0, ToggleMotor True),
        (1, StopMotor), (1, SetMode 5), (1, SetEncoder 0), (1, ToggleMotor True)]
   \<and> replies (emitted (idle False) (snd (initMotors demo hw_encoder1_fails (idle False))))
     = [True, True, True, True, True, True, False, True]
   \<and> fst (initMotors demo hw_encoder1_fails (idle False)) = False
   \<and> main_startup demo hw_encoder1_fails = Inl (- 1)
   \<and> [(1, 0)] \<noteq> [] \<and> \<not> g_motors_enabled (idle False)
   \<and> g_motors_enabled (main_loop_body demo hw_encoder1_fails [(1, 0)] (idle False)) = False"
proof -
  have r: "replies (emitted (idle False) (snd (initMotors demo hw_encoder1_fails (idle False))))
     = [True, True, True, True, True, True, False, True]"
    by (simp add: evals hw_encoder1_fails_def)
  have g: "fst (initMotors demo hw_encoder1_fails global_variable_initialization) = False"
    by (simp add: evals hw_encoder1_fails_def global_variable_initialization_def)
  have i: "fst (initMotors demo hw_encoder1_fails
       (callAvailable [(1, 0)] ((idle False)\<lparr>g_watchdog_tripped := False\<rparr>))) = False"
    by (simp add: evals hw_encoder1_fails_def)
  have n: "NUMBER_OF_MOTORS demo = 2"
    by (simp add: demo_def)
  have h: "[(1::real, 0::real)] \<noteq> []" "\<not> g_motors_enabled (idle False)"
    by (simp_all add: idle_def)
  show ?thesis
    using C6_initMotors_all_steps [of demo hw_encoder1_fails "idle False" "[(1, 0)]" "idle False"]
      r g i h
    by (simp add: Let_def n upt2 init_sequence_def)
qed

subsection \<open>C7: a failing setVelocity\<close>

text \<open>
  C7: \<^verbatim>\<open>setVelocity\<close> makes two calls, one on the left and one on the right channel, and
  the replies it records are the ones the controllers gave. It returns true exactly when
  both replies are true, and it logs the error \<^verbatim>\<open>Motors failed to setVelocity!\<close> exactly
  when the left or the right reply is false. It never changes \<open>g_motors_enabled\<close>,
  whatever the replies. In a step of the whole process, the flag goes from true to false
  only in a pass of the supervisor in which no command arrived (the watchdog timeout) or
  in a pass of a fault monitor whose text contains a fault marker: the supervisor drops
  the result of \<^verbatim>\<open>setVelocity\<close>.
\<close>

theorem C7_setVelocity_failure_absorbed:
  "g_motors_enabled (snd (setVelocity cfg hw lin ang s)) = g_motors_enabled s
   \<and> (fst (setVelocity cfg hw lin ang s) = False \<longrightarrow>
        (ERROR, Motors_failed_to_setVelocity)
          \<in> set (logs (emitted s (snd (setVelocity cfg hw lin ang s)))))
   \<and> calls (emitted s (snd (setVelocity cfg hw lin ang s)))
        = [(LEFT_MOTOR_CHANNEL cfg, SetVelocity (left_of cfg (effective cfg (lin, ang)))),
           (RIGHT_MOTOR_CHANNEL cfg, SetVelocity (right_of cfg (effective cfg (lin, ang))))]
   \<and> answered_by hw (trace s) (emitted s (snd (setVelocity cfg hw lin ang s)))
   \<and> (\<exists>left_ok right_ok.
          replies (emitted s (snd (setVelocity cfg hw lin ang s))) = [left_ok, right_ok]
        \<and> fst (setVelocity cfg hw lin ang s) = (left_ok \<and> right_ok)
        \<and> ((ERROR, Motors_failed_to_setVelocity)
              \<in> set (logs (emitted s (snd (setVelocity cfg hw lin ang s)))))
            = (\<not> left_ok \<or> \<not> right_ok))
   \<and> (g_motors_enabled s \<and> \<not> g_motors_enabled (system_step cfg hw st s) \<longrightarrow>
        st = Supervisor []
        \<or> (\<exists>buf. st = Monitor buf \<and> (sublist ''a?'' buf \<or> sublist '':?'' buf)))"
proof -
  obtain new where new:
    "setVelocity cfg hw lin ang s = (False \<notin> set (replies new), s\<lparr>trace := trace s @ new\<rparr>)"
    "calls new =
       [(LEFT_MOTOR_CHANNEL cfg, SetVelocity (left_of cfg (effective cfg (lin, ang)))),
        (RIGHT_MOTOR_CHANNEL cfg, SetVelocity (right_of cfg (effective cfg (lin, ang))))]"
    "logs new =
       [(INFO, Linear_angular lin ang)] @
       (if overspeed cfg lin then [(ERROR, GO_SLOWER)] else []) @
       [(INFO, Left_right_velocity (left_of cfg (effective cfg (lin, ang)))
                 (right_of cfg (effective cfg (lin, ang))))] @
       (if False \<in> set (replies new) then [(ERROR, Motors_failed_to_setVelocity)] else [])"
    "answered_by hw (trace s) new"
    using setVelocity_eq by blast
  have e: "emitted s (snd (setVelocity cfg hw lin ang s)) = new"
    by (simp add: new(1))
  have 1: "g_motors_enabled (snd (setVelocity cfg hw lin ang s)) = g_motors_enabled s"
    by (simp add: new(1))
  have 2: "(ERROR, Motors_failed_to_setVelocity) \<in> set (logs new)"
    if "fst (setVelocity cfg hw lin ang s) = False"
    using that by (simp add: new(1,3))
  have "length (replies new) = 2"
    by (simp add: length_replies new(2))
  then obtain left_ok right_ok where r: "replies new = [left_ok, right_ok]"
    by (auto simp: length_Suc_conv numeral_2_eq_2)
  have f: "fst (setVelocity cfg hw lin ang s) = (left_ok \<and> right_ok)"
    by (auto simp: new(1) r)
  have l: "((ERROR, Motors_failed_to_setVelocity) \<in> set (logs new)) = (\<not> left_ok \<or> \<not> right_ok)"
    by (auto simp: new(3) r)
  have 3: "\<exists>left_ok right_ok. replies new = [left_ok, right_ok]
        \<and> fst (setVelocity cfg hw lin ang s) = (left_ok \<and> right_ok)
        \<and> ((ERROR, Motors_failed_to_setVelocity) \<in> set (logs new)) = (\<not> left_ok \<or> \<not> right_ok)"
    using r f l by blast
  have 4: "st = Supervisor []
        \<or> (\<exists>buf. st = Monitor buf \<and> (sublist ''a?'' buf \<or> sublist '':?'' buf))"
    if on: "g_motors_enabled s" and off: "\<not> g_motors_enabled (system_step cfg hw st s)"
  proof (cases st)
    case (Supervisor msgs)
    show ?thesis
    proof (cases "msgs = []")
      case True
      with Supervisor show ?thesis by simp
    next
      case False
      from main_command [OF False, of cfg hw s]
      obtain ini vel where
        "main_loop_body cfg hw msgs s =
           s\<lparr>g_watchdog_tripped := True,
             g_linear_velocity := fst (last msgs),
             g_angular_velocity := snd (last msgs),
             g_motors_enabled := (g_motors_enabled s \<or> False \<notin> set (replies ini)),
             trace := trace s @ ini @ vel\<rparr>"
        by blast
      with on have "g_motors_enabled (main_loop_body cfg hw msgs s)"
        by simp
      with off Supervisor show ?thesis
        by (simp add: system_step_def)
    qed
  next
    case (Monitor buf)
    with on off show ?thesis
      by (simp add: system_step_def receiverControl_body_eq split: if_splits)
  qed
  show ?thesis
    unfolding e using 1 2 3 4 new(2,4) by blast
qed

text \<open>
  On the concrete robot, with the motors enabled and the command \<open>(1, 0)\<close>: when only the
  left wheel rejects its velocity, when only the right wheel does, and when both do,
  \<^verbatim>\<open>setVelocity\<close> returns false and logs the error, and the pass of the supervisor that
  called it leaves the motors enabled. The two steps that do disable them are the
  timeout and the fault marker.
\<close>

theorem C7_setVelocity_failure_absorbed_witness:
  "replies (emitted (idle True) (snd (setVelocity demo hw_left_velocity_fails 1 0 (idle True))))
     = [False, True]
   \<and> fst (setVelocity demo hw_left_velocity_fails 1 0 (idle True)) = False
   \<and> (ERROR, Motors_failed_to_setVelocity)
       \<in> set (logs (emitted (idle True) (snd (setVelocity demo hw_left_velocity_fails 1 0 (idle True)))))
   \<and> replies (emitted (idle True) (snd (setVelocity demo hw_right_velocity_fails 1 0 (idle True))))
     = [True, False]
   \<and> fst (setVelocity demo hw_right_velocity_fails 1 0 (idle True)) = False
   \<and> (ERROR, Motors_failed_to_setVelocity)
       \<in> set (logs (emitted (idle True) (snd (setVelocity demo hw_right_velocity_fails 1 0 (idle True)))))
   \<and> fst (setVelocity demo hw_velocity_fails 1 0 (idle True)) = False
   \<and> (ERROR, Motors_failed_to_setVelocity)
       \<notin> set (logs (emitted (idle True) (snd (setVelocity demo hw_ok 1 0 (idle True)))))
   \<and> g_motors_enabled (snd (setVelocity demo hw_left_velocity_fails 1 0 (idle True))) = True
   \<and> g_motors_enabled
        (system_step demo hw_left_velocity_fails (Supervisor [(1, 0)]) (idle True)) = True
   \<and> g_motors_enabled (idle True)
   \<and> \<not> g_motors_enabled (system_step demo hw_left_velocity_fails (Supervisor []) (idle True))
   \<and> \<not> g_motors_enabled (system_step demo hw_left_velocity_fails (Monitor ''a?'') (idle True))"
proof -
  have rl: "replies (emitted (idle True) (snd (setVelocity demo hw_left_velocity_fails 1 0 (idle True))))
     = [False, True]"
    by (simp add: evals hw_left_velocity_fails_def)
  have rr: "replies (emitted (idle True) (snd (setVelocity demo hw_right_velocity_fails 1 0 (idle True))))
     = [True, False]"
    by (simp add: evals hw_right_velocity_fails_def)
  have rb: "fst (setVelocity demo hw_velocity_fails 1 0 (idle True)) = False"
    by (simp add: evals hw_velocity_fails_def)
  have ro: "replies (emitted (idle True) (snd (setVelocity demo hw_ok 1 0 (idle True))))
     = [True, True]"
    by (simp add: evals hw_ok_def)
  have on: "g_motors_enabled (idle True)"
    by (simp add: idle_def)
  have t: "\<not> g_motors_enabled (system_step demo hw_left_velocity_fails (Supervisor []) (idle True))"
    by (simp add: system_step_def evals hw_left_velocity_fails_def)
  have m: "\<not> g_motors_enabled (system_step demo hw_left_velocity_fails (Monitor ''a?'') (idle True))"
    by (simp add: system_step_def receiverControl_body_def idle_def)
  have "\<not> (Supervisor [(1, 0)] = Supervisor []
        \<or> (\<exists>buf. Supervisor [(1, 0)] = Monitor buf \<and> (sublist ''a?'' buf \<or> sublist '':?'' buf)))"
    by simp
  with C7_setVelocity_failure_absorbed
         [of demo hw_left_velocity_fails 1 0 "idle True" "Supervisor [(1, 0)]"] on
  have c: "g_motors_enabled (system_step demo hw_left_velocity_fails (Supervisor [(1, 0)]) (idle True))"
    by blast
  have L: "fst (setVelocity demo hw_left_velocity_fails 1 0 (idle True)) = False
      \<and> (ERROR, Motors_failed_to_setVelocity)
       \<in> set (logs (emitted (idle True) (snd (setVelocity demo hw_left_velocity_fails 1 0 (idle True)))))
      \<and> g_motors_enabled (snd (setVelocity demo hw_left_velocity_fails 1 0 (idle True))) = True"
    using C7_setVelocity_failure_absorbed
         [of demo hw_left_velocity_fails 1 0 "idle True" "Supervisor []"] rl on
    by auto
  have R: "fst (setVelocity demo hw_right_velocity_fails 1 0 (idle True)) = False
      \<and> (ERROR, Motors_failed_to_setVelocity)
       \<in> set (logs (emitted (idle True) (snd (setVelocity demo hw_right_velocity_fails 1 0 (idle True)))))"
    using C7_setVelocity_failure_absorbed
         [of demo hw_right_velocity_fails 1 0 "idle True" "Supervisor []"] rr
    by auto
  have O: "(ERROR, Motors_failed_to_setVelocity)
       \<notin> set (logs (emitted (idle True) (snd (setVelocity demo hw_ok 1 0 (idle True)))))"
    using C7_setVelocity_failure_absorbed
         [of demo hw_ok 1 0 "idle True" "Supervisor []"] ro
    by auto
  show ?thesis
    using rl rr rb on t m c L R O by simp
qed

subsection \<open>C8: linearity\<close>

text \<open>
  C8: for every input within the speed limit, the velocities that \<^verbatim>\<open>setVelocity\<close> sends
  to the left and to the right wheel are the values of two functions of
  \<open>(linear, angular)\<close> that are linear in both inputs: each maps a linear combination of
  two inputs to the same combination of the outputs. With \<open>angular = 0\<close> the two
  velocities are equal up to the warp factors: cross-multiplied by the warp factors they
  agree, and where both warp factors are not zero, \<open>leftVelocity / leftWarp\<close> equals
  \<open>rightVelocity / rightWarp\<close>.
\<close>

theorem C8_linear_in_both_inputs:
  assumes "\<bar>lin\<bar> \<le> TOPSPEED cfg"
  shows "calls (emitted s (snd (setVelocity cfg hw lin ang s)))
           = [(LEFT_MOTOR_CHANNEL cfg, SetVelocity (left_of cfg (lin, ang))),
              (RIGHT_MOTOR_CHANNEL cfg, SetVelocity (right_of cfg (lin, ang)))]
       \<and> left_of cfg (a * l1 + b * l2, a * w1 + b * w2)
           = a * left_of cfg (l1, w1) + b * left_of cfg (l2, w2)
       \<and> right_of cfg (a * l1 + b * l2, a * w1 + b * w2)
           = a * right_of cfg (l1, w1) + b * right_of cfg (l2, w2)
       \<and> left_of cfg (lin, 0) * RIGHT_MOTOR_WARP cfg = right_of cfg (lin, 0) * LEFT_MOTOR_WARP cfg
       \<and> (LEFT_MOTOR_WARP cfg \<noteq> 0 \<and> RIGHT_MOTOR_WARP cfg \<noteq> 0 \<longrightarrow>
            left_of cfg (lin, 0) / LEFT_MOTOR_WARP cfg = right_of cfg (lin, 0) / RIGHT_MOTOR_WARP cfg)"
proof -
  obtain new where new:
    "setVelocity cfg hw lin ang s = (False \<notin> set (replies new), s\<lparr>trace := trace s @ new\<rparr>)"
    "calls new =
       [(LEFT_MOTOR_CHANNEL cfg, SetVelocity (left_of cfg (effective cfg (lin, ang)))),
        (RIGHT_MOTOR_CHANNEL cfg, SetVelocity (right_of cfg (effective cfg (lin, ang))))]"
    using setVelocity_eq by blast
  have 1: "calls (emitted s (snd (setVelocity cfg hw lin ang s)))
           = [(LEFT_MOTOR_CHANNEL cfg, SetVelocity (left_of cfg (lin, ang))),
              (RIGHT_MOTOR_CHANNEL cfg, SetVelocity (right_of cfg (lin, ang)))]"
    using new(2) by (simp add: new(1) effective_within [OF assms])
  have 2: "left_of cfg (a * l1 + b * l2, a * w1 + b * w2)
           = a * left_of cfg (l1, w1) + b * left_of cfg (l2, w2)"
    by (simp add: left_of_def algebra_simps)
  have 3: "right_of cfg (a * l1 + b * l2, a * w1 + b * w2)
           = a * right_of cfg (l1, w1) + b * right_of cfg (l2, w2)"
    by (simp add: right_of_def algebra_simps)
  have 4: "left_of cfg (lin, 0) * RIGHT_MOTOR_WARP cfg = right_of cfg (lin, 0) * LEFT_MOTOR_WARP cfg"
    by (simp add: left_of_def right_of_def)
  have 5: "left_of cfg (lin, 0) / LEFT_MOTOR_WARP cfg = right_of cfg (lin, 0) / RIGHT_MOTOR_WARP cfg"
    if "LEFT_MOTOR_WARP cfg \<noteq> 0" "RIGHT_MOTOR_WARP cfg \<noteq> 0"
    using that by (simp add: left_of_def right_of_def)
  show ?thesis
    using 1 2 3 4 5 by blast
qed

text \<open>
  Straight ahead at speed 1 on the concrete robot, whose wheels are mirrored: the two
  velocities are opposite, and equal once divided by the warp factors.
\<close>

theorem C8_linear_in_both_inputs_witness:
  "\<bar>1\<bar> \<le> TOPSPEED demo
   \<and> LEFT_MOTOR_WARP demo \<noteq> 0 \<and> RIGHT_MOTOR_WARP demo \<noteq> 0
   \<and> calls (emitted (idle True) (snd (setVelocity demo hw_ok 1 0 (idle True))))
       = [(1, SetVelocity (400000 / pi)), (0, SetVelocity (- (400000 / pi)))]
   \<and> left_of demo (1, 0) / LEFT_MOTOR_WARP demo = 400000 / pi
   \<and> right_of demo (1, 0) / RIGHT_MOTOR_WARP demo = 400000 / pi"
proof -
  have h: "\<bar>1\<bar> \<le> TOPSPEED demo"
    by (simp add: demo_def)
  have w: "LEFT_MOTOR_WARP demo \<noteq> 0" "RIGHT_MOTOR_WARP demo \<noteq> 0"
    by (simp_all add: demo_def)
  have L: "left_of demo (1, 0) = 400000 / pi"
    by (simp add: left_of_def MPS2TPS_def TURNOFFSET_def demo_def)
  from C8_linear_in_both_inputs [OF h, of "idle True" hw_ok 0] w
  have c: "calls (emitted (idle True) (snd (setVelocity demo hw_ok 1 0 (idle True))))
       = [(LEFT_MOTOR_CHANNEL demo, SetVelocity (left_of demo (1, 0))),
          (RIGHT_MOTOR_CHANNEL demo, SetVelocity (right_of demo (1, 0)))]"
    and d: "left_of demo (1, 0) / LEFT_MOTOR_WARP demo = right_of demo (1, 0) / RIGHT_MOTOR_WARP demo"
    by blast+
  have R: "right_of demo (1, 0) = - (400000 / pi)"
    by (simp add: right_of_def MPS2TPS_def TURNOFFSET_def demo_def)
  have l: "LEFT_MOTOR_CHANNEL demo = 1" "RIGHT_MOTOR_CHANNEL demo = 0"
    "LEFT_MOTOR_WARP demo = 1" "RIGHT_MOTOR_WARP demo = - 1"
    by (simp_all add: demo_def)
  show ?thesis
    using h w c d by (simp add: L R l)
qed

subsection \<open>C9: killing the motors twice\<close>

text \<open>
  C9: two watchdog timeouts in a row leave \<open>g_motors_enabled\<close> false after the first and
  after the second; the second makes the same calls as the first (stop, then disable, on
  each channel), logs the watchdog warning and nothing else, and changes nothing of the
  world but the trace. \<^verbatim>\<open>killMotors\<close> itself, called twice in a row, makes the same calls
  each time, logs nothing and changes no global. All of this holds whatever the
  controllers reply, also when they answer the second call differently from the first.
\<close>

theorem C9_kill_twice:
  "let s1 = main_loop_body cfg hw [] s; s2 = main_loop_body cfg hw [] s1;
       k1 = killMotors cfg hw s; k2 = killMotors cfg hw (snd k1) in
     g_motors_enabled s1 = False \<and> g_motors_enabled s2 = False
   \<and> calls (emitted s s1) = concat (map kill_sequence [0..<NUMBER_OF_MOTORS cfg])
   \<and> calls (emitted s1 s2) = calls (emitted s s1)
   \<and> logs (emitted s1 s2) = [(WARN, Watchdog_timed_out)]
   \<and> s2 = s1\<lparr>trace := trace s2\<rparr>
   \<and> calls (emitted s (snd k1)) = concat (map kill_sequence [0..<NUMBER_OF_MOTORS cfg])
   \<and> calls (emitted (snd k1) (snd k2)) = concat (map kill_sequence [0..<NUMBER_OF_MOTORS cfg])
   \<and> logs (emitted s (snd k2)) = []
   \<and> snd k2 = s\<lparr>trace := trace (snd k2)\<rparr>"
proof -
  define s1 where "s1 = main_loop_body cfg hw [] s"
  define s2 where "s2 = main_loop_body cfg hw [] s1"
  define k1 where "k1 = killMotors cfg hw s"
  define k2 where "k2 = killMotors cfg hw (snd k1)"
  obtain n1 where n1:
    "s1 = s\<lparr>g_watchdog_tripped := False, g_motors_enabled := False,
             trace := trace s @ Log WARN Watchdog_timed_out # n1\<rparr>"
    "calls n1 = concat (map kill_sequence [0..<NUMBER_OF_MOTORS cfg])" "logs n1 = []"
    unfolding s1_def using main_timeout by blast
  obtain n2 where n2:
    "s2 = s1\<lparr>g_watchdog_tripped := False, g_motors_enabled := False,
              trace := trace s1 @ Log WARN Watchdog_timed_out # n2\<rparr>"
    "calls n2 = concat (map kill_sequence [0..<NUMBER_OF_MOTORS cfg])" "logs n2 = []"
    unfolding s2_def using main_timeout by blast
  obtain m1 where m1:
    "k1 = (False \<notin> set (replies m1), s\<lparr>trace := trace s @ m1\<rparr>)"
    "calls m1 = concat (map kill_sequence [0..<NUMBER_OF_MOTORS cfg])" "logs m1 = []"
    unfolding k1_def using killMotors_eq by blast
  obtain m2 where m2:
    "k2 = (False \<notin> set (replies m2), (snd k1)\<lparr>trace := trace (snd k1) @ m2\<rparr>)"
    "calls m2 = concat (map kill_sequence [0..<NUMBER_OF_MOTORS cfg])" "logs m2 = []"
    unfolding k2_def using killMotors_eq by blast
  have e1: "emitted s s1 = Log WARN Watchdog_timed_out # n1"
    by (simp add: n1(1) emitted_def)
  have e2: "emitted s1 s2 = Log WARN Watchdog_timed_out # n2"
    by (simp add: n2(1) emitted_def)
  have f1: "emitted s (snd k1) = m1"
    by (simp add: m1(1))
  have f2: "emitted (snd k1) (snd k2) = m2"
    by (simp add: m2(1))
  have f3: "emitted s (snd k2) = m1 @ m2"
    by (simp add: m2(1) m1(1) emitted_def)
  have g: "g_motors_enabled s1 = False" "g_motors_enabled s2 = False"
    by (simp_all add: n1(1) n2(1))
  have i: "s2 = s1\<lparr>trace := trace s2\<rparr>"
    by (subst (2) n2(1), subst n2(1)) (simp add: n1(1))
  have j: "snd k2 = s\<lparr>trace := trace (snd k2)\<rparr>"
    by (simp add: m2(1) m1(1))
  have "g_motors_enabled s1 = False \<and> g_motors_enabled s2 = False
   \<and> calls (emitted s s1) = concat (map kill_sequence [0..<NUMBER_OF_MOTORS cfg])
   \<and> calls (emitted s1 s2) = calls (emitted s s1)
   \<and> logs (emitted s1 s2) = [(WARN, Watchdog_timed_out)]
   \<and> s2 = s1\<lparr>trace := trace s2\<rparr>
   \<and> calls (emitted s (snd k1)) = concat (map kill_sequence [0..<NUMBER_OF_MOTORS cfg])
   \<and> calls (emitted (snd k1) (snd k2)) = concat (map kill_sequence [0..<NUMBER_OF_MOTORS cfg])
   \<and> logs (emitted s (snd k2)) = []
   \<and> snd k2 = s\<lparr>trace := trace (snd k2)\<rparr>"
    unfolding e1 e2 f1 f2 f3 using g i j by (simp add: n1 n2 m1 m2)
  then show ?thesis
    by (simp add: Let_def s1_def s2_def k1_def k2_def)
qed

text \<open>
  Two timeouts in a row with controllers that reject everything, starting with the
  motors enabled: the same four calls each time, and the flag false after each.
\<close>

theorem C9_kill_twice_witness:
  "g_motors_enabled (main_loop_body demo hw_dead [] (idle True)) = False
   \<and> g_motors_enabled
        (main_loop_body demo hw_dead [] (main_loop_body demo hw_dead [] (idle True))) = False
   \<and> calls (emitted (main_loop_body demo hw_dead [] (idle True))
        (main_loop_body demo hw_dead [] (main_loop_body demo hw_dead [] (idle True))))
      = [(0, StopMotor), (0, ToggleMotor False), (1, StopMotor), (1, ToggleMotor False)]"
  using C9_kill_twice [of demo hw_dead "idle True"]
  by (simp add: Let_def kill_sequence_def upt2 demo_def)

subsection \<open>C10: the result of killMotors is dropped\<close>

text \<open>
  C10: a pass of the loop in which the watchdog timed out ends in the world that
  \<^verbatim>\<open>killMotors\<close> left, with \<open>g_motors_enabled\<close> set to false; the boolean that
  \<^verbatim>\<open>killMotors\<close> returned is not used. So the flag is false whatever the controllers
  replied, and nothing is logged at error level.
\<close>

theorem C10_kill_result_discarded:
  "let s3 = ros_log WARN Watchdog_timed_out (s\<lparr>g_watchdog_tripped := False\<rparr>);
       s' = main_loop_body cfg hw [] s in
     s' = (snd (killMotors cfg hw s3))\<lparr>g_motors_enabled := False\<rparr>
   \<and> g_motors_enabled s' = False
   \<and> ERROR \<notin> fst ` set (logs (emitted s s'))"
proof -
  obtain new where new:
    "main_loop_body cfg hw [] s =
       s\<lparr>g_watchdog_tripped := False, g_motors_enabled := False,
         trace := trace s @ Log WARN Watchdog_timed_out # new\<rparr>"
    "logs new = []"
    using main_timeout by blast
  have e: "emitted s (main_loop_body cfg hw [] s) = Log WARN Watchdog_timed_out # new"
    by (simp add: new(1) emitted_def)
  have k: "main_loop_body cfg hw [] s =
      (snd (killMotors cfg hw (ros_log WARN Watchdog_timed_out (s\<lparr>g_watchdog_tripped := False\<rparr>))))
        \<lparr>g_motors_enabled := False\<rparr>"
    by (simp add: main_loop_body_def callAvailable_eq Let_def case_prod_beta)
  have g: "g_motors_enabled (main_loop_body cfg hw [] s) = False"
    by (simp add: new(1))
  show ?thesis
    unfolding Let_def e using k g by (simp add: new(2))
qed

text \<open>
  With controllers that reject everything \<^verbatim>\<open>killMotors\<close> returns false; the pass still
  ends with the flag false and has logged only the warning.
\<close>

theorem C10_kill_result_discarded_witness:
  "fst (killMotors demo hw_dead
          (ros_log WARN Watchdog_timed_out ((idle True)\<lparr>g_watchdog_tripped := False\<rparr>))) = False
   \<and> g_motors_enabled (main_loop_body demo hw_dead [] (idle True)) = False
   \<and> logs (emitted (idle True) (main_loop_body demo hw_dead [] (idle True)))
       = [(WARN, Watchdog_timed_out)]"
proof -
  have f: "fst (killMotors demo hw_dead
          (ros_log WARN Watchdog_timed_out ((idle True)\<lparr>g_watchdog_tripped := False\<rparr>))) = False"
    by (simp add: evals hw_dead_def)
  have l: "logs (emitted (idle True) (main_loop_body demo hw_dead [] (idle True)))
       = [(WARN, Watchdog_timed_out)]"
    by (simp add: evals hw_dead_def)
  show ?thesis
    using C10_kill_result_discarded [where cfg = demo and hw = hw_dead and s = "idle True"] f l
    by (simp add: Let_def)
qed

end
